theory Spec2Isabelle
  imports Main "HOL-Library.Sublist"
begin

section \<open>The scaffold builder of \<^verbatim>\<open>struct.py\<close>\<close>

text \<open>
  The script walks a nested Python literal and realises it on disk with two calls of
  \<^verbatim>\<open>pathlib\<close>: \<^verbatim>\<open>Path.mkdir(exist_ok=True)\<close> and \<^verbatim>\<open>Path.touch()\<close>, printing one
  line after each call that returned. The embedding below keeps the script's names.

  Scope of the model. A path is the list of its components below the filesystem root
  (the current directory of the script is absolute, \<^verbatim>\<open>Path.cwd()\<close>), and
  \<^verbatim>\<open>base_path / name\<close> appends one component. This is what \<^verbatim>\<open>pathlib\<close> does for
  a name that is a single component (not empty, no slash, neither \<^verbatim>\<open>.\<close> nor \<^verbatim>\<open>..\<close>);
  the predicate \<open>well_formed\<close> below says so, and the theorems that depend on it
  assume it.
  Dictionary keys and list members are strings, as in the shipped literal. The
  filesystem is a case-sensitive POSIX one without symbolic links, permissions, quotas
  or name-length limits; timestamps are not part of the state.
\<close>

subsection \<open>Python values\<close>

text \<open>
  A dictionary is an association list in insertion order (\<^verbatim>\<open>structure.items()\<close>
  iterates in that order). \<open>PStr\<close> and \<open>PInt\<close> stand for the values that are neither
  \<^verbatim>\<open>None\<close>, a \<^verbatim>\<open>dict\<close> nor a \<^verbatim>\<open>list\<close>.
\<close>

datatype pyval =
    PNone
  | PDict "(string \<times> pyval) list"
  | PList "string list"
  | PStr string
  | PInt int

subsection \<open>The filesystem and the output stream\<close>

type_synonym path = "string list"

datatype node = Dir | File string

type_synonym filesystem = "path \<rightharpoonup> node"

datatype os_error =
    FileExistsError path
  | FileNotFoundError path
  | NotADirectoryError path

datatype fs_call = Mkdir path | Touch path

text \<open>
  The world the script acts on: the filesystem, the bytes written to standard output,
  and the sequence of filesystem calls issued so far (an instrument for the order of
  the calls; no call reads it).
\<close>

record world =
  fs :: filesystem
  stdout :: string
  calls :: "fs_call list"

text \<open>\<^verbatim>\<open>str(path)\<close> of an absolute path.\<close>

definition render :: "path \<Rightarrow> string" where
  "render p = (if p = [] then ''/'' else concat (map (\<lambda>c. ''/'' @ c) p))"

text \<open>\<^verbatim>\<open>print(s)\<close>: the text and a newline.\<close>

definition py_print :: "string \<Rightarrow> world \<Rightarrow> world" where
  "py_print s w = w\<lparr>stdout := stdout w @ s @ [CHR 0x0A]\<rparr>"

text \<open>
  \<^verbatim>\<open>Path.touch()\<close> with its default \<^verbatim>\<open>exist_ok=True\<close>: first \<^verbatim>\<open>os.utime\<close>, which
  succeeds on any existing entry, a directory included, and changes no content; when
  that fails, \<^verbatim>\<open>os.open(O_CREAT | O_WRONLY)\<close>, which creates an empty file in an
  existing parent directory and raises otherwise.
\<close>

definition touch :: "path \<Rightarrow> world \<Rightarrow> os_error option \<times> world" where
  "touch p w =
     (let w1 = w\<lparr>calls := calls w @ [Touch p]\<rparr> in
      case fs w p of
        Some _ \<Rightarrow> (None, w1)
      | None \<Rightarrow>
          (case fs w (butlast p) of
             Some Dir \<Rightarrow> (None, w1\<lparr>fs := (fs w)(p \<mapsto> File [])\<rparr>)
           | Some (File _) \<Rightarrow> (Some (NotADirectoryError p), w1)
           | None \<Rightarrow> (Some (FileNotFoundError p), w1)))"

text \<open>
  \<^verbatim>\<open>Path.mkdir(exist_ok=True)\<close>: \<^verbatim>\<open>os.mkdir\<close>, whose \<^verbatim>\<open>OSError\<close> is swallowed
  only when the path is a directory already.
\<close>

definition mkdir :: "path \<Rightarrow> world \<Rightarrow> os_error option \<times> world" where
  "mkdir p w =
     (let w1 = w\<lparr>calls := calls w @ [Mkdir p]\<rparr> in
      case fs w p of
        Some Dir \<Rightarrow> (None, w1)
      | Some (File _) \<Rightarrow> (Some (FileExistsError p), w1)
      | None \<Rightarrow>
          (case fs w (butlast p) of
             Some Dir \<Rightarrow> (None, w1\<lparr>fs := (fs w)(p \<mapsto> Dir)\<rparr>)
           | Some (File _) \<Rightarrow> (Some (NotADirectoryError p), w1)
           | None \<Rightarrow> (Some (FileNotFoundError p), w1)))"

subsection \<open>The walk\<close>

text \<open>
  The inner loop of the list branch (lines 162 to 165): touch and report each file
  name; an exception leaves the loop and the walk.
\<close>

fun touch_files :: "path \<Rightarrow> string list \<Rightarrow> world \<Rightarrow> os_error option \<times> world" where
  "touch_files path [] w = (None, w)"
| "touch_files path (file_name # content) w =
     (case touch (path @ [file_name]) w of
        (Some e, w1) \<Rightarrow> (Some e, w1)
      | (None, w1) \<Rightarrow>
          touch_files path content
            (py_print (''Created file: '' @ render (path @ [file_name])) w1))"

text \<open>
  \<^verbatim>\<open>create_structure\<close> (lines 146 to 165). The result is the exception that left the
  function, if any, and the world at that moment.
\<close>

function create_structure ::
  "path \<Rightarrow> (string \<times> pyval) list \<Rightarrow> world \<Rightarrow> os_error option \<times> world" where
  "create_structure base_path [] w = (None, w)"
| "create_structure base_path ((name, content) # rest) w =
     (let path = base_path @ [name] in
      case content of
        PNone \<Rightarrow>
          (case touch path w of
             (Some e, w1) \<Rightarrow> (Some e, w1)
           | (None, w1) \<Rightarrow>
               create_structure base_path rest
                 (py_print (''Created file: '' @ render path) w1))
      | PDict d \<Rightarrow>
          (case mkdir path w of
             (Some e, w1) \<Rightarrow> (Some e, w1)
           | (None, w1) \<Rightarrow>
               (case create_structure path d
                       (py_print (''Created directory: '' @ render path) w1) of
                  (Some e, w2) \<Rightarrow> (Some e, w2)
                | (None, w2) \<Rightarrow> create_structure base_path rest w2))
      | PList l \<Rightarrow>
          (case mkdir path w of
             (Some e, w1) \<Rightarrow> (Some e, w1)
           | (None, w1) \<Rightarrow>
               (case touch_files path l
                       (py_print (''Created directory: '' @ render path) w1) of
                  (Some e, w2) \<Rightarrow> (Some e, w2)
                | (None, w2) \<Rightarrow> create_structure base_path rest w2))
      | PStr _ \<Rightarrow> create_structure base_path rest w
      | PInt _ \<Rightarrow> create_structure base_path rest w)"
  by pat_completeness auto
termination
  by (relation "measure (\<lambda>(b, d, w). size_list (size_prod (\<lambda>_. 0) size) d)") auto

subsection \<open>The shipped description and the script\<close>

text \<open>The module-level literal \<^verbatim>\<open>structure\<close> (lines 5 to 144).\<close>

definition "structure" :: "(string \<times> pyval) list" where
  "structure =
     [(''lib'', PDict
        [(''core'', PDict
           [(''constants'', PList
              [''app_constants.dart'',
               ''app_strings.dart'',
               ''app_theme.dart'']),
            (''errors'', PList
              [''exceptions.dart'',
               ''failures.dart'']),
            (''network'', PList
              [''network_info.dart'',
               ''api_client.dart'']),
            (''utils'', PList
              [''date_formatter.dart'',
               ''validators.dart'',
               ''analytics_helper.dart'']),
            (''widgets'', PDict
              [(''buttons'', PList []),
               (''cards'', PList []),
               (''dialogs'', PList []),
               (''loaders'', PList [])])]),
         (''data'', PDict
           [(''datasources'', PDict
              [(''local'', PList
                 [''app_database.dart'',
                  ''workout_local_datasource.dart'',
                  ''user_local_datasource.dart'']),
               (''remote'', PList
                 [''workout_remote_datasource.dart'',
                  ''user_remote_datasource.dart''])]),
            (''models'', PList
              [''exercise_model.dart'',
               ''workout_model.dart'',
               ''workout_log_model.dart'',
               ''user_model.dart'',
               ''personal_record_model.dart'']),
            (''repositories'', PList
              [''workout_repository_impl.dart'',
               ''exercise_repository_impl.dart'',
               ''user_repository_impl.dart''])]),
         (''domain'', PDict
           [(''entities'', PList
              [''exercise.dart'',
               ''workout.dart'',
               ''workout_log.dart'',
               ''user.dart'',
               ''personal_record.dart'']),
            (''repositories'', PList
              [''workout_repository.dart'',
               ''exercise_repository.dart'',
               ''user_repository.dart'']),
            (''usecases'', PDict
              [(''workout'', PList
                 [''get_workout_history.dart'',
                  ''log_workout.dart'',
                  ''get_personal_records.dart'']),
               (''user'', PList
                 [''get_user.dart'',
                  ''update_user.dart''])])]),
         (''presentation'', PDict
           [(''bloc'', PDict
              [(''workout'', PList
                 [''workout_bloc.dart'',
                  ''workout_event.dart'',
                  ''workout_state.dart'']),
               (''exercise'', PList
                 [''exercise_bloc.dart'',
                  ''exercise_event.dart'',
                  ''exercise_state.dart'']),
               (''timer'', PList
                 [''timer_bloc.dart'',
                  ''timer_event.dart'',
                  ''timer_state.dart''])]),
            (''pages'', PDict
              [(''home'', PDict
                 [(''home_page.dart'', PNone),
                  (''widgets'', PList [])]),
               (''workout'', PDict
                 [(''workout_list_page.dart'', PNone),
                  (''workout_detail_page.dart'', PNone),
                  (''workout_in_progress_page.dart'', PNone),
                  (''widgets'', PList [])]),
               (''stats'', PDict
                 [(''stats_dashboard_page.dart'', PNone),
                  (''widgets'', PList [])]),
               (''history'', PDict
                 [(''workout_history_page.dart'', PNone),
                  (''widgets'', PList [])]),
               (''profile'', PDict
                 [(''profile_page.dart'', PNone),
                  (''widgets'', PList [])])]),
            (''widgets'', PList
              [''exercise_card.dart'',
               ''workout_timer.dart'',
               ''set_tracker.dart'',
               ''progress_chart.dart''])]),
         (''config'', PDict
           [(''routes'', PList
              [''app_router.dart'',
               ''route_names.dart'']),
            (''injection'', PList
              [''dependency_injection.dart''])]),
         (''app.dart'', PNone),
         (''main.dart'', PNone)])]"

text \<open>
  The module body (lines 167 to 173) with the description and the current directory
  as parameters: the walk and, when it returned, the last \<^verbatim>\<open>print\<close>, whose text
  begins with a line feed. An exception of the walk ends the script.
\<close>

definition script ::
  "(string \<times> pyval) list \<Rightarrow> path \<Rightarrow> world \<Rightarrow> os_error option \<times> world" where
  "script description current_dir w =
     (case create_structure current_dir description w of
        (Some e, w1) \<Rightarrow> (Some e, w1)
      | (None, w1) \<Rightarrow>
          (None, py_print (CHR 0x0A # ''Directory structure created successfully!'') w1))"

text \<open>The script as shipped.\<close>

definition main :: "path \<Rightarrow> world \<Rightarrow> os_error option \<times> world" where
  "main = script structure"

section \<open>Vocabulary of the specification\<close>

subsection \<open>The walk as a sequence of calls\<close>

text \<open>
  A call, the path it acts on, its execution, and the line the script prints when it
  has returned.
\<close>

definition target :: "fs_call \<Rightarrow> path" where
  "target c = (case c of Mkdir p \<Rightarrow> p | Touch p \<Rightarrow> p)"

definition issue :: "fs_call \<Rightarrow> world \<Rightarrow> os_error option \<times> world" where
  "issue c = (case c of Mkdir p \<Rightarrow> mkdir p | Touch p \<Rightarrow> touch p)"

definition notice :: "fs_call \<Rightarrow> string" where
  "notice c = (case c of Mkdir p \<Rightarrow> ''Created directory: '' @ render p
                       | Touch p \<Rightarrow> ''Created file: '' @ render p)"

text \<open>
  A sequence of calls executed as the script does: each call is issued, its line is
  printed when it returns, and the first call that raises ends the sequence.
\<close>

fun exec :: "fs_call list \<Rightarrow> world \<Rightarrow> os_error option \<times> world" where
  "exec [] w = (None, w)"
| "exec (c # cs) w =
     (case issue c w of
        (Some e, w1) \<Rightarrow> (Some e, w1)
      | (None, w1) \<Rightarrow> exec cs (py_print (notice c) w1))"

text \<open>
  Depth-first pre-order, as the specification words it: a directory before its
  contents, the entries of a dictionary in declared order, the members of a list in
  list order. Values that are neither \<^verbatim>\<open>None\<close>, a dict nor a list contribute nothing.
\<close>

function preorder :: "path \<Rightarrow> (string \<times> pyval) list \<Rightarrow> fs_call list" where
  "preorder b [] = []"
| "preorder b ((n, PNone) # rest) = Touch (b @ [n]) # preorder b rest"
| "preorder b ((n, PDict d) # rest) =
     Mkdir (b @ [n]) # preorder (b @ [n]) d @ preorder b rest"
| "preorder b ((n, PList l) # rest) =
     Mkdir (b @ [n]) # map (\<lambda>f. Touch (b @ [n, f])) l @ preorder b rest"
| "preorder b ((n, PStr s) # rest) = preorder b rest"
| "preorder b ((n, PInt i) # rest) = preorder b rest"
  by pat_completeness auto
termination
  by (relation "measure (\<lambda>(b, d). size_list (size_prod (\<lambda>_. 0) size) d)") auto

text \<open>The progress lines of a sequence of calls, one per call, each ended by a line feed.\<close>

definition progress :: "fs_call list \<Rightarrow> string" where
  "progress cs = concat (map (\<lambda>c. notice c @ [CHR 0x0A]) cs)"

text \<open>
  In a sequence of calls, every call acts in a directory of \<open>D\<close> or in one that an
  earlier call of the sequence made.
\<close>

definition parents_first :: "path set \<Rightarrow> fs_call list \<Rightarrow> bool" where
  "parents_first D cs \<longleftrightarrow>
     (\<forall>pre c post. cs = pre @ c # post \<longrightarrow>
        butlast (target c) \<in> D \<or> Mkdir (butlast (target c)) \<in> set pre)"

text \<open>The lines of a text, as \<^verbatim>\<open>str.splitlines\<close> cuts it at line feeds.\<close>

fun splitlines :: "string \<Rightarrow> string list" where
  "splitlines [] = []"
| "splitlines (c # cs) =
     (if c = CHR 0x0A then [] # splitlines cs
      else (case splitlines cs of [] \<Rightarrow> [[c]] | l # ls \<Rightarrow> (c # l) # ls))"

subsection \<open>Well-formed descriptions and what they declare\<close>

text \<open>
  A name that is one path component, and a description all of whose names are such
  and whose keys are distinct within each dictionary (as the keys of a Python dict
  are).
\<close>

definition simple_name :: "string \<Rightarrow> bool" where
  "simple_name n \<longleftrightarrow>
     n \<noteq> [] \<and> n \<noteq> ''.'' \<and> n \<noteq> ''..'' \<and> CHR ''/'' \<notin> set n \<and> CHR 0x00 \<notin> set n"

function well_formed :: "(string \<times> pyval) list \<Rightarrow> bool" where
  "well_formed [] \<longleftrightarrow> True"
| "well_formed ((n, v) # rest) \<longleftrightarrow>
     simple_name n \<and> n \<notin> set (map fst rest) \<and>
     (case v of PDict d \<Rightarrow> well_formed d | PList l \<Rightarrow> list_all simple_name l | _ \<Rightarrow> True) \<and>
     well_formed rest"
  by pat_completeness auto
termination
  by (relation "measure (size_list (size_prod (\<lambda>_. 0) size))") auto

text \<open>
  The paths of the dict-valued and list-valued entries, at every level, and the paths
  of the \<^verbatim>\<open>None\<close>-valued entries and of the members of the lists.
\<close>

function dir_paths :: "path \<Rightarrow> (string \<times> pyval) list \<Rightarrow> path list" where
  "dir_paths b [] = []"
| "dir_paths b ((n, v) # rest) =
     (case v of
        PDict d \<Rightarrow> (b @ [n]) # dir_paths (b @ [n]) d
      | PList l \<Rightarrow> [b @ [n]]
      | _ \<Rightarrow> []) @ dir_paths b rest"
  by pat_completeness auto
termination
  by (relation "measure (\<lambda>(b, d). size_list (size_prod (\<lambda>_. 0) size) d)") auto

function file_paths :: "path \<Rightarrow> (string \<times> pyval) list \<Rightarrow> path list" where
  "file_paths b [] = []"
| "file_paths b ((n, v) # rest) =
     (case v of
        PNone \<Rightarrow> [b @ [n]]
      | PDict d \<Rightarrow> file_paths (b @ [n]) d
      | PList l \<Rightarrow> map (\<lambda>f. b @ [n, f]) l
      | _ \<Rightarrow> []) @ file_paths b rest"
  by pat_completeness auto
termination
  by (relation "measure (\<lambda>(b, d). size_list (size_prod (\<lambda>_. 0) size) d)") auto

text \<open>A target root that exists as a directory and has nothing beneath it.\<close>

definition empty_root :: "filesystem \<Rightarrow> path \<Rightarrow> bool" where
  "empty_root f b \<longleftrightarrow> f b = Some Dir \<and> (\<forall>p. strict_prefix b p \<longrightarrow> f p = None)"

subsection \<open>Example worlds\<close>

text \<open>
  A project directory \<^verbatim>\<open>/home/dev/gymgee\<close> that is empty, with nothing printed and no
  call issued yet.
\<close>

definition project_dir :: path where
  "project_dir = [''home'', ''dev'', ''gymgee'']"

definition empty_project :: world where
  "empty_project =
     \<lparr>fs = [[] \<mapsto> Dir, [''home''] \<mapsto> Dir, [''home'', ''dev''] \<mapsto> Dir,
            [''home'', ''dev'', ''gymgee''] \<mapsto> Dir],
      stdout = [], calls = []\<rparr>"

text \<open>
  The same directory after work has begun: \<^verbatim>\<open>lib/main.dart\<close> has content, and
  \<^verbatim>\<open>lib/NOTES.md\<close> is a file the description does not mention.
\<close>

definition started_project :: world where
  "started_project =
     \<lparr>fs = [[] \<mapsto> Dir, [''home''] \<mapsto> Dir, [''home'', ''dev''] \<mapsto> Dir,
            [''home'', ''dev'', ''gymgee''] \<mapsto> Dir,
            [''home'', ''dev'', ''gymgee'', ''lib''] \<mapsto> Dir,
            [''home'', ''dev'', ''gymgee'', ''lib'', ''main.dart''] \<mapsto> File ''void main() {}'',
            [''home'', ''dev'', ''gymgee'', ''lib'', ''NOTES.md''] \<mapsto> File ''todo''],
      stdout = [], calls = []\<rparr>"

text \<open>
  The same directory where \<^verbatim>\<open>lib/main.dart\<close> is a directory, and one where
  \<^verbatim>\<open>b\<close> is a file.
\<close>

definition occupied_project :: world where
  "occupied_project =
     \<lparr>fs = [[] \<mapsto> Dir, [''home''] \<mapsto> Dir, [''home'', ''dev''] \<mapsto> Dir,
            [''home'', ''dev'', ''gymgee''] \<mapsto> Dir,
            [''home'', ''dev'', ''gymgee'', ''lib''] \<mapsto> Dir,
            [''home'', ''dev'', ''gymgee'', ''lib'', ''main.dart''] \<mapsto> Dir],
      stdout = [], calls = []\<rparr>"

definition blocked_project :: world where
  "blocked_project =
     \<lparr>fs = [[] \<mapsto> Dir, [''home''] \<mapsto> Dir, [''home'', ''dev''] \<mapsto> Dir,
            [''home'', ''dev'', ''gymgee''] \<mapsto> Dir,
            [''home'', ''dev'', ''gymgee'', ''b''] \<mapsto> File ''x''],
      stdout = [], calls = []\<rparr>"

section \<open>Properties of the model\<close>

subsection \<open>The walk is the execution of its pre-order\<close>

lemma exec_append:
  "exec (xs @ ys) w =
     (case exec xs w of (Some e, w1) \<Rightarrow> (Some e, w1) | (None, w1) \<Rightarrow> exec ys w1)"
  by (induction xs arbitrary: w) (auto split: prod.splits option.splits)

lemma touch_files_exec:
  "touch_files p l w = exec (map (\<lambda>f. Touch (p @ [f])) l) w"
  by (induction l arbitrary: w)
     (auto simp: issue_def notice_def split: prod.splits option.splits)

lemma create_structure_exec:
  "create_structure b d w = exec (preorder b d) w"
proof (induction b d arbitrary: w rule: preorder.induct)
  case (1 b)
  show ?case by simp
next
  case (2 b n rest)
  then show ?case
    by (simp add: issue_def notice_def split: prod.splits option.splits)
next
  case (3 b n d rest)
  then show ?case
    by (simp add: issue_def notice_def exec_append split: prod.splits option.splits)
next
  case (4 b n l rest)
  then show ?case
    by (simp add: issue_def notice_def exec_append touch_files_exec
             split: prod.splits option.splits)
next
  case (5 b n s rest)
  then show ?case by simp
next
  case (6 b n i rest)
  then show ?case by simp
qed

subsection \<open>Single calls\<close>

lemma issue_calls: "calls (snd (issue c w)) = calls w @ [c]"
  by (cases c)
     (auto simp: issue_def mkdir_def touch_def Let_def split: option.splits node.splits)

lemma issue_stdout: "stdout (snd (issue c w)) = stdout w"
  by (cases c)
     (auto simp: issue_def mkdir_def touch_def Let_def split: option.splits node.splits)

lemma issue_keeps: "fs w p = Some e \<Longrightarrow> fs (snd (issue c w)) p = Some e"
  by (cases c)
     (auto simp: issue_def mkdir_def touch_def Let_def split: option.splits node.splits)

lemma issue_elsewhere: "p \<noteq> target c \<Longrightarrow> fs (snd (issue c w)) p = fs w p"
  by (cases c)
     (auto simp: issue_def target_def mkdir_def touch_def Let_def
           split: option.splits node.splits)

lemma issue_failed_fs: "issue c w = (Some e, w1) \<Longrightarrow> fs w1 = fs w"
  by (cases c)
     (auto simp: issue_def mkdir_def touch_def Let_def split: option.splits node.splits)

lemma issue_Mkdir_done: "issue (Mkdir p) w = (None, w1) \<Longrightarrow> fs w1 p = Some Dir"
  by (auto simp: issue_def mkdir_def Let_def split: option.splits node.splits)

lemma issue_Touch_done:
  "issue (Touch p) w = (None, w1) \<Longrightarrow>
     fs w1 p = (case fs w p of None \<Rightarrow> Some (File []) | Some e \<Rightarrow> Some e)"
  by (auto simp: issue_def touch_def Let_def split: option.splits node.splits)

lemma issue_present:
  "fs w (target c) = Some (case c of Mkdir p \<Rightarrow> Dir | Touch p \<Rightarrow> e) \<Longrightarrow>
     issue c w = (None, w\<lparr>calls := calls w @ [c]\<rparr>)"
  by (cases c) (auto simp: issue_def target_def mkdir_def touch_def Let_def)

lemma py_print_fs [simp]: "fs (py_print s w) = fs w"
  by (simp add: py_print_def)

lemma py_print_calls [simp]: "calls (py_print s w) = calls w"
  by (simp add: py_print_def)

lemma py_print_stdout [simp]: "stdout (py_print s w) = stdout w @ s @ [CHR 0x0A]"
  by (simp add: py_print_def)

subsection \<open>Sequences of calls\<close>

lemma exec_keeps: "fs w p = Some e \<Longrightarrow> fs (snd (exec cs w)) p = Some e"
proof (induction cs arbitrary: w)
  case Nil
  then show ?case by simp
next
  case (Cons c cs)
  obtain r w1 where iss: "issue c w = (r, w1)" by (cases "issue c w")
  from issue_keeps [OF Cons.prems, of c] iss have k: "fs w1 p = Some e" by simp
  show ?case
  proof (cases r)
    case None
    from k have "fs (py_print (notice c) w1) p = Some e" by simp
    from Cons.IH [OF this] iss None show ?thesis by simp
  next
    case (Some a)
    with iss k show ?thesis by simp
  qed
qed

lemma exec_elsewhere: "p \<notin> target ` set cs \<Longrightarrow> fs (snd (exec cs w)) p = fs w p"
proof (induction cs arbitrary: w)
  case Nil
  then show ?case by simp
next
  case (Cons c cs)
  obtain r w1 where iss: "issue c w = (r, w1)" by (cases "issue c w")
  from Cons.prems have "p \<noteq> target c" by auto
  from issue_elsewhere [OF this, of w] iss have k: "fs w1 p = fs w p" by simp
  from Cons.prems have rest: "p \<notin> target ` set cs" by auto
  show ?case
  proof (cases r)
    case None
    from Cons.IH [OF rest, of "py_print (notice c) w1"] iss None k show ?thesis by simp
  next
    case (Some a)
    with iss k show ?thesis by simp
  qed
qed

lemma progress_append: "progress (xs @ ys) = progress xs @ progress ys"
  by (simp add: progress_def)

lemma exec_success_log:
  "exec cs w = (None, w1) \<Longrightarrow>
     calls w1 = calls w @ cs \<and> stdout w1 = stdout w @ progress cs"
proof (induction cs arbitrary: w)
  case Nil
  then show ?case by (simp add: progress_def)
next
  case (Cons c cs)
  obtain r v where iss: "issue c w = (r, v)" by (cases "issue c w")
  with Cons.prems have r: "r = None"
    by (cases r) auto
  with iss Cons.prems have "exec cs (py_print (notice c) v) = (None, w1)" by simp
  from Cons.IH [OF this] issue_calls [of c w] issue_stdout [of c w] iss
  show ?case by (simp add: progress_def)
qed

lemma exec_failure_log:
  "exec cs w = (Some e, w1) \<Longrightarrow>
     \<exists>pre c post v. cs = pre @ c # post \<and> exec pre w = (None, v) \<and>
        issue c v = (Some e, w1)"
proof (induction cs arbitrary: w)
  case Nil
  then show ?case by simp
next
  case (Cons c cs)
  obtain r v where iss: "issue c w = (r, v)" by (cases "issue c w")
  show ?case
  proof (cases r)
    case None
    with iss Cons.prems have "exec cs (py_print (notice c) v) = (Some e, w1)" by simp
    from Cons.IH [OF this] obtain pre c' post v' where
      d: "cs = pre @ c' # post" and p: "exec pre (py_print (notice c) v) = (None, v')"
      and f: "issue c' v' = (Some e, w1)" by blast
    from d have "c # cs = (c # pre) @ c' # post" by simp
    moreover from p iss None have "exec (c # pre) w = (None, v')" by simp
    ultimately show ?thesis using f by blast
  next
    case (Some a)
    with iss Cons.prems have "issue c w = (Some e, w1)" by simp
    moreover have "c # cs = [] @ c # cs" by simp
    moreover have "exec [] w = (None, w)" by simp
    ultimately show ?thesis by blast
  qed
qed

lemma exec_done:
  assumes "exec cs w = (None, w1)" and "c \<in> set cs"
  shows "case c of Mkdir p \<Rightarrow> fs w1 p = Some Dir | Touch p \<Rightarrow> fs w1 p \<noteq> None"
proof -
  from assms(2) obtain xs ys where cs: "cs = xs @ c # ys"
    by (auto simp: in_set_conv_decomp)
  obtain r v where x: "exec xs w = (r, v)" by (cases "exec xs w")
  with assms(1) cs have r: "r = None"
    by (cases r) (auto simp: exec_append)
  obtain r2 v2 where iss: "issue c v = (r2, v2)" by (cases "issue c v")
  with assms(1) cs x r have r2: "r2 = None"
    by (cases r2) (auto simp: exec_append)
  from assms(1) cs x r iss r2 have rest: "exec ys (py_print (notice c) v2) = (None, w1)"
    by (simp add: exec_append)
  have now: "case c of Mkdir p \<Rightarrow> fs v2 p = Some Dir | Touch p \<Rightarrow> fs v2 p \<noteq> None"
  proof (cases c)
    case (Mkdir p)
    with iss r2 issue_Mkdir_done [of p v v2] show ?thesis by simp
  next
    case (Touch p)
    with iss r2 issue_Touch_done [of p v v2] show ?thesis
      by (simp split: option.splits)
  qed
  show ?thesis
  proof (cases c)
    case (Mkdir p)
    with now have "fs (py_print (notice c) v2) p = Some Dir" by simp
    from exec_keeps [OF this, of ys] rest Mkdir show ?thesis by simp
  next
    case (Touch p)
    with now obtain e where "fs (py_print (notice c) v2) p = Some e" by auto
    from exec_keeps [OF this, of ys] rest Touch show ?thesis by simp
  qed
qed

lemma exec_present:
  assumes "\<And>p. Mkdir p \<in> set cs \<Longrightarrow> fs w p = Some Dir"
    and "\<And>p. Touch p \<in> set cs \<Longrightarrow> fs w p \<noteq> None"
  shows "fst (exec cs w) = None \<and> fs (snd (exec cs w)) = fs w"
  using assms
proof (induction cs arbitrary: w)
  case Nil
  then show ?case by simp
next
  case (Cons c cs)
  have iss: "issue c w = (None, w\<lparr>calls := calls w @ [c]\<rparr>)"
  proof (cases c)
    case (Mkdir p)
    with Cons.prems(1) [of p] show ?thesis
      by (simp add: issue_def mkdir_def Let_def)
  next
    case (Touch p)
    with Cons.prems(2) [of p] show ?thesis
      by (auto simp: issue_def touch_def Let_def)
  qed
  let ?v = "py_print (notice c) (w\<lparr>calls := calls w @ [c]\<rparr>)"
  have same: "fs ?v = fs w" by simp
  have "fst (exec cs ?v) = None \<and> fs (snd (exec cs ?v)) = fs ?v"
    using Cons.prems by (intro Cons.IH) (simp_all add: same)
  with iss same show ?case by simp
qed

lemma exec_fresh_file:
  "exec cs w = (None, w1) \<Longrightarrow> fs w p = None \<Longrightarrow> Touch p \<in> set cs \<Longrightarrow>
     Mkdir p \<notin> set cs \<Longrightarrow> fs w1 p = Some (File [])"
proof (induction cs arbitrary: w)
  case Nil
  then show ?case by simp
next
  case (Cons c cs)
  obtain r v where iss: "issue c w = (r, v)" by (cases "issue c w")
  with Cons.prems(1) have r: "r = None" by (cases r) auto
  with iss Cons.prems(1) have rest: "exec cs (py_print (notice c) v) = (None, w1)" by simp
  show ?case
  proof (cases "c = Touch p")
    case True
    with iss r issue_Touch_done [of p w v] Cons.prems(2)
    have "fs (py_print (notice c) v) p = Some (File [])" by simp
    from exec_keeps [OF this, of cs] rest show ?thesis by simp
  next
    case False
    with Cons.prems(4) have "p \<noteq> target c"
      by (cases c) (auto simp: target_def)
    from issue_elsewhere [OF this, of w] iss Cons.prems(2)
    have "fs (py_print (notice c) v) p = None" by simp
    moreover from False Cons.prems(3) have "Touch p \<in> set cs" by auto
    moreover from Cons.prems(4) have "Mkdir p \<notin> set cs" by auto
    ultimately show ?thesis using Cons.IH rest by blast
  qed
qed

subsection \<open>Paths of a description\<close>

lemma preorder_append: "preorder b (xs @ ys) = preorder b xs @ preorder b ys"
  by (induction b xs rule: preorder.induct) auto

lemma preorder_target:
  "c \<in> set (preorder b d) \<Longrightarrow> \<exists>n \<in> set (map fst d). prefix (b @ [n]) (target c)"
proof (induction b d rule: preorder.induct)
  case (1 b)
  then show ?case by simp
next
  case (2 b n rest)
  then show ?case by (auto simp: target_def)
next
  case (3 b n d rest)
  from "3.prems" consider "c = Mkdir (b @ [n])" | "c \<in> set (preorder (b @ [n]) d)"
    | "c \<in> set (preorder b rest)" by auto
  then show ?case
  proof cases
    case 1
    then show ?thesis by (simp add: target_def)
  next
    case 2
    from "3.IH"(1) [OF this] obtain m where "prefix ((b @ [n]) @ [m]) (target c)" by blast
    then have "prefix (b @ [n]) (target c)" by (rule append_prefixD)
    then show ?thesis by simp
  next
    case 3
    from "3.IH"(2) [OF this] show ?thesis by auto
  qed
next
  case (4 b n l rest)
  from "4.prems" consider "c = Mkdir (b @ [n])" | "\<exists>f. c = Touch (b @ [n, f])"
    | "c \<in> set (preorder b rest)" by auto
  then show ?case
  proof cases
    case 1
    then show ?thesis by (simp add: target_def)
  next
    case 2
    then obtain f where "c = Touch ((b @ [n]) @ [f])" by auto
    then have "prefix (b @ [n]) (target c)" by (simp add: target_def)
    then show ?thesis by simp
  next
    case 3
    from "4.IH" [OF this] show ?thesis by auto
  qed
next
  case (5 b n s rest)
  then show ?case by auto
next
  case (6 b n i rest)
  then show ?case by auto
qed

lemma preorder_below: "c \<in> set (preorder b d) \<Longrightarrow> strict_prefix b (target c)"
proof -
  assume "c \<in> set (preorder b d)"
  from preorder_target [OF this] obtain n where "prefix (b @ [n]) (target c)" by blast
  then obtain zs where "target c = b @ n # zs" by (auto simp: prefix_def)
  then show ?thesis by (simp add: strict_prefix_def prefix_def)
qed

lemma sibling_apart:
  "prefix (b @ [n]) p \<Longrightarrow> prefix (b @ [m]) p \<Longrightarrow> n = m"
  by (auto simp: prefix_def append_eq_append_conv2 Cons_eq_append_conv)

lemma rest_apart:
  assumes "n \<notin> set (map fst rest)" and "c \<in> set (preorder b rest)"
  shows "\<not> prefix (b @ [n]) (target c)"
proof
  assume a: "prefix (b @ [n]) (target c)"
  from preorder_target [OF assms(2)] obtain m where
    m: "m \<in> set (map fst rest)" and "prefix (b @ [m]) (target c)" by blast
  with a have "n = m" by (blast dest: sibling_apart)
  with m assms(1) show False by simp
qed

lemma target_simps [simp]: "target (Mkdir p) = p" "target (Touch p) = p"
  by (simp_all add: target_def)

lemma sub_apart:
  assumes "c \<in> set (preorder (b @ [n]) d)"
  shows "prefix (b @ [n]) (target c)" and "target c \<noteq> b @ [n]"
  using preorder_below [OF assms] by (auto simp: strict_prefix_def)

lemma member_apart:
  "prefix (b @ [n]) (b @ [n, f])" "b @ [n, f] \<noteq> b @ [n]"
  by (simp_all add: prefix_def)

lemma one_kind:
  "well_formed d \<Longrightarrow> Mkdir p \<in> set (preorder b d) \<Longrightarrow> Touch p \<notin> set (preorder b d)"
proof (induction b d rule: preorder.induct)
  case (1 b)
  then show ?case by simp
next
  case (2 b n rest)
  from "2.prems" have wf: "well_formed rest" and fresh: "n \<notin> set (map fst rest)"
    and m: "Mkdir p \<in> set (preorder b rest)" by auto
  from rest_apart [OF fresh m] have "p \<noteq> b @ [n]" by auto
  with "2.IH" [OF wf m] show ?case by simp
next
  case (3 b n d rest)
  from "3.prems" have wfd: "well_formed d" and wf: "well_formed rest"
    and fresh: "n \<notin> set (map fst rest)" by auto
  have sub: "prefix (b @ [n]) q \<and> q \<noteq> b @ [n]"
    if "c \<in> set (preorder (b @ [n]) d)" "target c = q" for c q
    using sub_apart [OF that(1)] that(2) by simp
  have rst: "\<not> prefix (b @ [n]) q"
    if "c \<in> set (preorder b rest)" "target c = q" for c q
    using rest_apart [OF fresh that(1)] that(2) by simp
  show ?case
  proof
    assume t: "Touch p \<in> set (preorder b ((n, PDict d) # rest))"
    then consider "Touch p \<in> set (preorder (b @ [n]) d)" | "Touch p \<in> set (preorder b rest)"
      by auto
    then show False
    proof cases
      case 1
      from sub [OF 1] have tp: "prefix (b @ [n]) p" "p \<noteq> b @ [n]" by simp_all
      from "3.prems"(2) consider "p = b @ [n]" | "Mkdir p \<in> set (preorder (b @ [n]) d)"
        | "Mkdir p \<in> set (preorder b rest)" by auto
      then show False
      proof cases
        case 1
        with tp show False by simp
      next
        case 2
        with "3.IH"(1) [OF wfd] \<open>Touch p \<in> set (preorder (b @ [n]) d)\<close> show False by blast
      next
        case 3
        from rst [OF 3] tp show False by simp
      qed
    next
      case 2
      from rst [OF 2] have tp: "\<not> prefix (b @ [n]) p" by simp
      from "3.prems"(2) consider "p = b @ [n]" | "Mkdir p \<in> set (preorder (b @ [n]) d)"
        | "Mkdir p \<in> set (preorder b rest)" by auto
      then show False
      proof cases
        case 1
        with tp show False by simp
      next
        case 2
        from sub [OF 2] tp show False by simp
      next
        case 3
        with "3.IH"(2) [OF wf] \<open>Touch p \<in> set (preorder b rest)\<close> show False by blast
      qed
    qed
  qed
next
  case (4 b n l rest)
  from "4.prems" have wf: "well_formed rest" and fresh: "n \<notin> set (map fst rest)" by auto
  have rst: "\<not> prefix (b @ [n]) q"
    if "c \<in> set (preorder b rest)" "target c = q" for c q
    using rest_apart [OF fresh that(1)] that(2) by simp
  show ?case
  proof
    assume t: "Touch p \<in> set (preorder b ((n, PList l) # rest))"
    then consider f where "p = b @ [n, f]" | "Touch p \<in> set (preorder b rest)"
      by auto
    then show False
    proof cases
      case 1
      with member_apart [of b n f] have tp: "prefix (b @ [n]) p" "p \<noteq> b @ [n]" by simp_all
      from "4.prems"(2) consider "p = b @ [n]" | "Mkdir p \<in> set (preorder b rest)" by auto
      then show False
      proof cases
        case 1
        with tp show False by simp
      next
        case 2
        from rst [OF 2] tp show False by simp
      qed
    next
      case 2
      from rst [OF 2] have tp: "\<not> prefix (b @ [n]) p" by simp
      from "4.prems"(2) consider "p = b @ [n]" | "Mkdir p \<in> set (preorder b rest)" by auto
      then show False
      proof cases
        case 1
        with tp show False by simp
      next
        case 2
        with "4.IH" [OF wf] \<open>Touch p \<in> set (preorder b rest)\<close> show False by blast
      qed
    qed
  qed
next
  case (5 b n s rest)
  then show ?case by simp
next
  case (6 b n i rest)
  then show ?case by simp
qed

subsection \<open>When the walk succeeds\<close>

lemma issue_Touch_ok: "fs w (butlast p) = Some Dir \<Longrightarrow> fst (issue (Touch p) w) = None"
  by (auto simp: issue_def touch_def Let_def split: option.splits)

lemma issue_Mkdir_ok:
  "fs w (butlast p) = Some Dir \<Longrightarrow> (\<And>c. fs w p \<noteq> Some (File c)) \<Longrightarrow>
     fst (issue (Mkdir p) w) = None"
  by (auto simp: issue_def mkdir_def Let_def split: option.splits node.splits)

lemma exec_Cons_ok:
  "fst (issue c w) = None \<Longrightarrow>
     exec (c # cs) w = exec cs (py_print (notice c) (snd (issue c w)))"
  by (cases "issue c w") auto

lemma exec_append_ok:
  "fst (exec xs w) = None \<Longrightarrow> exec (xs @ ys) w = exec ys (snd (exec xs w))"
  by (cases "exec xs w") (auto simp: exec_append)

lemma exec_members_ok:
  "fs w q = Some Dir \<Longrightarrow> fst (exec (map (\<lambda>f. Touch (q @ [f])) l) w) = None"
proof (induction l arbitrary: w)
  case Nil
  then show ?case by simp
next
  case (Cons f l)
  from Cons.prems have ok: "fst (issue (Touch (q @ [f])) w) = None"
    by (intro issue_Touch_ok) simp
  let ?v = "py_print (notice (Touch (q @ [f]))) (snd (issue (Touch (q @ [f])) w))"
  from issue_keeps [OF Cons.prems] have "fs ?v q = Some Dir" by simp
  from Cons.IH [OF this] exec_Cons_ok [OF ok] show ?case by simp
qed

lemma walk_succeeds:
  "well_formed d \<Longrightarrow> fs w b = Some Dir \<Longrightarrow>
   (\<And>p c. Mkdir p \<in> set (preorder b d) \<Longrightarrow> fs w p \<noteq> Some (File c)) \<Longrightarrow>
     fst (exec (preorder b d) w) = None"
proof (induction b d arbitrary: w rule: preorder.induct)
  case (1 b)
  then show ?case by simp
next
  case (2 b n rest)
  from "2.prems"(1) have wf: "well_formed rest" and fresh: "n \<notin> set (map fst rest)" by auto
  let ?c = "Touch (b @ [n])"
  let ?v = "py_print (notice ?c) (snd (issue ?c w))"
  from "2.prems"(2) have ok: "fst (issue ?c w) = None" by (intro issue_Touch_ok) simp
  from issue_keeps [OF "2.prems"(2)] have base: "fs ?v b = Some Dir" by simp
  have "fs ?v p \<noteq> Some (File c)" if m: "Mkdir p \<in> set (preorder b rest)" for p c
  proof -
    from rest_apart [OF fresh m] have "p \<noteq> target ?c" by auto
    from issue_elsewhere [OF this, of w] "2.prems"(3) [of p c] m show ?thesis by simp
  qed
  from "2.IH" [OF wf base this] exec_Cons_ok [OF ok] show ?case by simp
next
  case (3 b n d rest)
  from "3.prems"(1) have wfd: "well_formed d" and wf: "well_formed rest"
    and fresh: "n \<notin> set (map fst rest)" by auto
  let ?c = "Mkdir (b @ [n])"
  let ?v = "py_print (notice ?c) (snd (issue ?c w))"
  let ?sub = "preorder (b @ [n]) d"
  let ?u = "snd (exec ?sub ?v)"
  have ok: "fst (issue ?c w) = None"
    using "3.prems"(2) "3.prems"(3) [of "b @ [n]"] by (intro issue_Mkdir_ok) simp_all
  then have "issue ?c w = (None, snd (issue ?c w))" by (cases "issue ?c w") simp
  from issue_Mkdir_done [OF this] have here: "fs ?v (b @ [n]) = Some Dir" by simp
  from issue_keeps [OF "3.prems"(2)] have base: "fs ?v b = Some Dir" by simp
  have away: "fs ?v p = fs w p" if "p \<noteq> b @ [n]" for p
    using issue_elsewhere [of p ?c w] that by simp
  have "fs ?v p \<noteq> Some (File c)" if m: "Mkdir p \<in> set ?sub" for p c
  proof -
    from sub_apart(2) [OF m] have "p \<noteq> b @ [n]" by simp
    from away [OF this] "3.prems"(3) [of p c] m show ?thesis by simp
  qed
  from "3.IH"(1) [OF wfd here this] have subok: "fst (exec ?sub ?v) = None" .
  from exec_keeps [OF base] have base': "fs ?u b = Some Dir" .
  have "fs ?u p \<noteq> Some (File c)" if m: "Mkdir p \<in> set (preorder b rest)" for p c
  proof -
    from rest_apart [OF fresh m] have np: "\<not> prefix (b @ [n]) p" by simp
    then have ne: "p \<noteq> b @ [n]" by auto
    from np sub_apart(1) [of _ b n d] have "p \<notin> target ` set ?sub" by auto
    from exec_elsewhere [OF this] away [OF ne] "3.prems"(3) [of p c] m
    show ?thesis by simp
  qed
  from "3.IH"(2) [OF wf base' this] exec_Cons_ok [OF ok] exec_append_ok [OF subok]
  show ?case by simp
next
  case (4 b n l rest)
  from "4.prems"(1) have wf: "well_formed rest" and fresh: "n \<notin> set (map fst rest)" by auto
  let ?c = "Mkdir (b @ [n])"
  let ?v = "py_print (notice ?c) (snd (issue ?c w))"
  let ?sub = "map (\<lambda>f. Touch ((b @ [n]) @ [f])) l"
  let ?u = "snd (exec ?sub ?v)"
  have ok: "fst (issue ?c w) = None"
    using "4.prems"(2) "4.prems"(3) [of "b @ [n]"] by (intro issue_Mkdir_ok) simp_all
  then have "issue ?c w = (None, snd (issue ?c w))" by (cases "issue ?c w") simp
  from issue_Mkdir_done [OF this] have here: "fs ?v (b @ [n]) = Some Dir" by simp
  from issue_keeps [OF "4.prems"(2)] have base: "fs ?v b = Some Dir" by simp
  have away: "fs ?v p = fs w p" if "p \<noteq> b @ [n]" for p
    using issue_elsewhere [of p ?c w] that by simp
  from exec_members_ok [OF here] have subok: "fst (exec ?sub ?v) = None" .
  from exec_keeps [OF base] have base': "fs ?u b = Some Dir" .
  have "fs ?u p \<noteq> Some (File c)" if m: "Mkdir p \<in> set (preorder b rest)" for p c
  proof -
    from rest_apart [OF fresh m] have np: "\<not> prefix (b @ [n]) p" by simp
    then have ne: "p \<noteq> b @ [n]" by auto
    from np have "p \<notin> target ` set ?sub" by (auto simp: prefix_def)
    from exec_elsewhere [OF this] away [OF ne] "4.prems"(3) [of p c] m
    show ?thesis by simp
  qed
  from "4.IH" [OF wf base' this] exec_Cons_ok [OF ok] exec_append_ok [OF subok]
  show ?case by simp
next
  case (5 b n s rest)
  then show ?case by simp
next
  case (6 b n i rest)
  then show ?case by simp
qed

lemma well_formed_structure: "well_formed structure"
  by (simp add: structure_def simple_name_def)

lemma dir_paths_preorder: "p \<in> set (dir_paths b d) \<longleftrightarrow> Mkdir p \<in> set (preorder b d)"
  by (induction b d rule: preorder.induct) auto

lemma file_paths_preorder: "p \<in> set (file_paths b d) \<longleftrightarrow> Touch p \<in> set (preorder b d)"
  by (induction b d rule: preorder.induct) auto

lemma empty_root_succeeds:
  assumes "well_formed d" and "empty_root (fs w) b"
  shows "fst (create_structure b d w) = None"
proof -
  from assms(2) have base: "fs w b = Some Dir" by (simp add: empty_root_def)
  have "fs w p \<noteq> Some (File c)" if "Mkdir p \<in> set (preorder b d)" for p c
  proof -
    from preorder_below [OF that] assms(2) have "fs w p = None"
      by (simp add: empty_root_def)
    then show ?thesis by simp
  qed
  from walk_succeeds [OF assms(1) base this] show ?thesis
    by (simp add: create_structure_exec)
qed

lemma empty_project_root: "empty_root (fs empty_project) project_dir"
  by (auto simp: empty_root_def empty_project_def project_dir_def strict_prefix_def)

subsection \<open>The order of the calls\<close>

lemma parents_first_Nil: "parents_first D []"
  by (simp add: parents_first_def)

lemma parents_first_mono: "parents_first D cs \<Longrightarrow> D \<subseteq> E \<Longrightarrow> parents_first E cs"
  unfolding parents_first_def by blast

lemma parents_first_Cons:
  assumes "butlast (target a) \<in> D" and "parents_first E cs"
    and "\<And>q. q \<in> E \<Longrightarrow> q \<in> D \<or> a = Mkdir q"
  shows "parents_first D (a # cs)"
  unfolding parents_first_def
proof (intro allI impI)
  fix pre c post
  assume eq: "a # cs = pre @ c # post"
  show "butlast (target c) \<in> D \<or> Mkdir (butlast (target c)) \<in> set pre"
  proof (cases pre)
    case Nil
    with eq have "c = a" by simp
    with assms(1) show ?thesis by simp
  next
    case (Cons x ys)
    with eq have x: "x = a" and cs: "cs = ys @ c # post" by simp_all
    from assms(2) cs
    have "butlast (target c) \<in> E \<or> Mkdir (butlast (target c)) \<in> set ys"
      unfolding parents_first_def by blast
    then show ?thesis
    proof
      assume "butlast (target c) \<in> E"
      from assms(3) [OF this] Cons x show ?thesis by auto
    next
      assume "Mkdir (butlast (target c)) \<in> set ys"
      with Cons show ?thesis by simp
    qed
  qed
qed

lemma parents_first_Touch:
  "butlast p \<in> D \<Longrightarrow> parents_first D cs \<Longrightarrow> parents_first D (Touch p # cs)"
  by (rule parents_first_Cons [where E = D]) simp_all

lemma parents_first_Mkdir:
  "butlast p \<in> D \<Longrightarrow> parents_first (insert p D) cs \<Longrightarrow> parents_first D (Mkdir p # cs)"
  by (rule parents_first_Cons [where E = "insert p D"]) auto

lemma parents_first_append:
  assumes "parents_first D xs" and "parents_first D ys"
  shows "parents_first D (xs @ ys)"
  unfolding parents_first_def
proof (intro allI impI)
  fix pre c post
  assume "xs @ ys = pre @ c # post"
  then obtain us where
    "xs = pre @ us \<and> us @ ys = c # post \<or> xs @ us = pre \<and> ys = us @ c # post"
    by (auto simp: append_eq_append_conv2)
  then show "butlast (target c) \<in> D \<or> Mkdir (butlast (target c)) \<in> set pre"
  proof
    assume a: "xs = pre @ us \<and> us @ ys = c # post"
    show ?thesis
    proof (cases us)
      case Nil
      with a have "ys = [] @ c # post" by simp
      with assms(2) have "butlast (target c) \<in> D \<or> Mkdir (butlast (target c)) \<in> set []"
        unfolding parents_first_def by blast
      then show ?thesis by simp
    next
      case (Cons u us')
      with a have "xs = pre @ c # us'" by simp
      with assms(1) show ?thesis unfolding parents_first_def by blast
    qed
  next
    assume a: "xs @ us = pre \<and> ys = us @ c # post"
    with assms(2) have "butlast (target c) \<in> D \<or> Mkdir (butlast (target c)) \<in> set us"
      unfolding parents_first_def by blast
    with a show ?thesis by auto
  qed
qed

lemma parents_first_members:
  "parents_first {q} (map (\<lambda>f. Touch (q @ [f])) l)"
  by (induction l) (simp_all add: parents_first_Nil parents_first_Touch)

lemma parents_first_preorder: "parents_first {b} (preorder b d)"
proof (induction b d rule: preorder.induct)
  case (1 b)
  show ?case by (simp add: parents_first_Nil)
next
  case (2 b n rest)
  then show ?case by (simp add: parents_first_Touch)
next
  case (3 b n d rest)
  have "parents_first {b @ [n], b} (preorder (b @ [n]) d)"
    using "3.IH"(1) by (rule parents_first_mono) simp
  moreover have "parents_first {b @ [n], b} (preorder b rest)"
    using "3.IH"(2) by (rule parents_first_mono) simp
  ultimately show ?case
    by (simp add: parents_first_Mkdir parents_first_append)
next
  case (4 b n l rest)
  have "parents_first {b @ [n], b} (map (\<lambda>f. Touch ((b @ [n]) @ [f])) l)"
    using parents_first_members by (rule parents_first_mono) simp
  moreover have "parents_first {b @ [n], b} (preorder b rest)"
    using "4.IH" by (rule parents_first_mono) simp
  ultimately show ?case
    by (simp add: parents_first_Mkdir parents_first_append)
next
  case (5 b n s rest)
  then show ?case by simp
next
  case (6 b n i rest)
  then show ?case by simp
qed

lemma exec_calls_prefix:
  "\<exists>tr. calls (snd (exec cs w)) = calls w @ tr \<and> prefix tr cs \<and>
        (fst (exec cs w) = None \<longrightarrow> tr = cs) \<and>
        stdout (snd (exec cs w)) =
          stdout w @ progress (if fst (exec cs w) = None then tr else butlast tr)"
proof (cases "exec cs w")
  case (Pair r w1)
  show ?thesis
  proof (cases r)
    case None
    with Pair exec_success_log [of cs w w1] show ?thesis by simp
  next
    case (Some e)
    with Pair exec_failure_log [of cs w e w1] obtain pre c post v where
      cs: "cs = pre @ c # post" and p: "exec pre w = (None, v)"
      and f: "issue c v = (Some e, w1)" by blast
    from exec_success_log [OF p] have "calls v = calls w @ pre" "stdout v = stdout w @ progress pre"
      by simp_all
    with issue_calls [of c v] issue_stdout [of c v] f
    have "calls w1 = calls w @ (pre @ [c])" "stdout w1 = stdout w @ progress pre" by simp_all
    moreover from cs have "prefix (pre @ [c]) cs" by (simp add: prefix_def)
    ultimately show ?thesis using Pair Some by (intro exI [of _ "pre @ [c]"]) simp
  qed
qed

subsection \<open>The script\<close>

lemma script_fst: "fst (script d b w) = fst (create_structure b d w)"
  by (cases "create_structure b d w") (auto simp: script_def split: option.splits)

lemma script_fs: "fs (snd (script d b w)) = fs (snd (create_structure b d w))"
  by (cases "create_structure b d w") (auto simp: script_def split: option.splits)

lemma script_calls: "calls (snd (script d b w)) = calls (snd (create_structure b d w))"
  by (cases "create_structure b d w") (auto simp: script_def split: option.splits)

lemma script_stdout:
  "stdout (snd (script d b w)) =
     stdout w @
     (case fst (script d b w) of
        None \<Rightarrow> progress (preorder b d) @ [CHR 0x0A]
                 @ ''Directory structure created successfully!'' @ [CHR 0x0A]
      | Some e \<Rightarrow> progress (butlast (drop (length (calls w)) (calls (snd (script d b w))))))"
proof -
  from exec_calls_prefix [of "preorder b d" w] obtain tr where all:
    "calls (snd (exec (preorder b d) w)) = calls w @ tr \<and> prefix tr (preorder b d) \<and>
     (fst (exec (preorder b d) w) = None \<longrightarrow> tr = preorder b d) \<and>
     stdout (snd (exec (preorder b d) w)) =
       stdout w @ progress (if fst (exec (preorder b d) w) = None then tr else butlast tr)" ..
  from all have c: "calls (snd (create_structure b d w)) = calls w @ tr"
    by (simp add: create_structure_exec)
  from all have s: "fst (create_structure b d w) = None \<longrightarrow> tr = preorder b d"
    by (simp add: create_structure_exec)
  from all have o: "stdout (snd (create_structure b d w)) =
       stdout w @ progress (if fst (create_structure b d w) = None then tr else butlast tr)"
    by (simp add: create_structure_exec)
  obtain r w1 where run: "create_structure b d w = (r, w1)"
    by (cases "create_structure b d w")
  show ?thesis
  proof (cases r)
    case None
    with run s o show ?thesis by (simp add: script_def)
  next
    case (Some e)
    with run c o show ?thesis by (simp add: script_def)
  qed
qed

section \<open>The claims\<close>

text \<open>
  C3 (non-destructiveness). Whatever exists before a run of \<open>create_structure\<close> exists
  unchanged after it, whether the run returns or raises: a file keeps its content byte
  for byte (touch never truncates), a directory stays a directory, and no entry is
  removed, so the other contents of every directory are undisturbed.
\<close>

theorem non_destructive:
  "fs w p = Some e \<Longrightarrow> fs (snd (create_structure b d w)) p = Some e"
  by (simp add: create_structure_exec exec_keeps)

theorem non_destructive_witness:
  "fs started_project [''home'', ''dev'', ''gymgee'', ''lib'', ''main.dart'']
     = Some (File ''void main() {}'') \<and>
   fs (snd (create_structure project_dir structure started_project))
      [''home'', ''dev'', ''gymgee'', ''lib'', ''main.dart'']
     = Some (File ''void main() {}'')"
proof -
  have h: "fs started_project [''home'', ''dev'', ''gymgee'', ''lib'', ''main.dart'']
             = Some (File ''void main() {}'')"
    by (simp add: started_project_def)
  from h non_destructive [OF h, of project_dir "structure"] show ?thesis by simp
qed

text \<open>
  C9 (unrecognised values). An entry whose value is neither \<^verbatim>\<open>None\<close>, a dict nor a
  list takes no branch of the \<^verbatim>\<open>if\<close>/\<^verbatim>\<open>elif\<close> chain: wherever it stands among
  the entries, the run is the run of the description without it, with the same result,
  the same filesystem, the same output and the same calls. So nothing is created or
  printed for it, nothing is raised, and the remaining entries are processed.
\<close>

theorem unrecognised_skipped:
  "create_structure b (xs @ (n, PStr s) # ys) w = create_structure b (xs @ ys) w \<and>
   create_structure b (xs @ (n, PInt i) # ys) w = create_structure b (xs @ ys) w"
  by (simp add: create_structure_exec preorder_append)

text \<open>
  C8 (touch on a directory). When the path of a \<^verbatim>\<open>None\<close>-valued entry is a directory
  already, \<^verbatim>\<open>touch\<close> returns without raising, the line for the entry is printed, the
  walk goes on with the remaining entries, and the path is a directory when the walk
  ends.
\<close>

theorem touch_on_directory:
  "fs w (b @ [n]) = Some Dir \<Longrightarrow>
     create_structure b ((n, PNone) # rest) w =
       create_structure b rest
         (py_print (''Created file: '' @ render (b @ [n]))
            (w\<lparr>calls := calls w @ [Touch (b @ [n])]\<rparr>)) \<and>
     fs (snd (create_structure b ((n, PNone) # rest) w)) (b @ [n]) = Some Dir"
proof -
  assume d: "fs w (b @ [n]) = Some Dir"
  then have "create_structure b ((n, PNone) # rest) w =
       create_structure b rest
         (py_print (''Created file: '' @ render (b @ [n]))
            (w\<lparr>calls := calls w @ [Touch (b @ [n])]\<rparr>))"
    by (simp add: touch_def Let_def)
  moreover from d have "fs (snd (create_structure b ((n, PNone) # rest) w)) (b @ [n]) = Some Dir"
    by (simp only: create_structure_exec exec_keeps)
  ultimately show ?thesis by simp
qed

theorem touch_on_directory_witness:
  "fs occupied_project ([''home'', ''dev'', ''gymgee'', ''lib''] @ [''main.dart'']) = Some Dir \<and>
   create_structure [''home'', ''dev'', ''gymgee'', ''lib''] [(''main.dart'', PNone)]
       occupied_project =
     (None, occupied_project
        \<lparr>stdout := ''Created file: /home/dev/gymgee/lib/main.dart'' @ [CHR 0x0A],
         calls := [Touch [''home'', ''dev'', ''gymgee'', ''lib'', ''main.dart'']]\<rparr>) \<and>
   fs (snd (create_structure [''home'', ''dev'', ''gymgee'', ''lib''] [(''main.dart'', PNone)]
              occupied_project))
      [''home'', ''dev'', ''gymgee'', ''lib'', ''main.dart''] = Some Dir"
proof -
  have h: "fs occupied_project ([''home'', ''dev'', ''gymgee'', ''lib''] @ [''main.dart''])
             = Some Dir"
    by (simp add: occupied_project_def)
  from touch_on_directory [OF h, of "[]"] h show ?thesis
    by (simp add: py_print_def render_def occupied_project_def)
qed

text \<open>
  C10 (empty file list). For an entry whose value is the empty list and whose name is
  a single component, in a directory that exists and where the name is free or a
  directory already, the walk issues one
  \<^verbatim>\<open>mkdir\<close>, after which the path is a directory, prints one line for it, touches
  nothing beneath it, and goes on with the remaining entries.
\<close>

theorem empty_file_list:
  "simple_name n \<Longrightarrow> fs w b = Some Dir \<Longrightarrow>
   fs w (b @ [n]) = None \<or> fs w (b @ [n]) = Some Dir \<Longrightarrow>
     create_structure b ((n, PList []) # rest) w =
       create_structure b rest
         (w\<lparr>fs := (fs w)(b @ [n] \<mapsto> Dir),
            stdout := stdout w @ ''Created directory: '' @ render (b @ [n]) @ [CHR 0x0A],
            calls := calls w @ [Mkdir (b @ [n])]\<rparr>)"
proof -
  assume base: "fs w b = Some Dir"
  assume "fs w (b @ [n]) = None \<or> fs w (b @ [n]) = Some Dir"
  then have "mkdir (b @ [n]) w =
      (None, w\<lparr>calls := calls w @ [Mkdir (b @ [n])], fs := (fs w)(b @ [n] \<mapsto> Dir)\<rparr>)"
  proof
    assume "fs w (b @ [n]) = None"
    with base show ?thesis by (simp add: mkdir_def Let_def)
  next
    assume d: "fs w (b @ [n]) = Some Dir"
    then have "(fs w)(b @ [n] \<mapsto> Dir) = fs w" by (simp add: map_upd_triv)
    with d show ?thesis by (simp add: mkdir_def Let_def)
  qed
  then have step: "create_structure b ((n, PList []) # rest) w =
      create_structure b rest
        (py_print (''Created directory: '' @ render (b @ [n]))
           (w\<lparr>calls := calls w @ [Mkdir (b @ [n])], fs := (fs w)(b @ [n] \<mapsto> Dir)\<rparr>))"
    by (simp add: Let_def)
  have pp:
    "py_print (''Created directory: '' @ render (b @ [n]))
       (w\<lparr>calls := calls w @ [Mkdir (b @ [n])], fs := (fs w)(b @ [n] \<mapsto> Dir)\<rparr>) =
     w\<lparr>fs := (fs w)(b @ [n] \<mapsto> Dir),
       stdout := stdout w @ ''Created directory: '' @ render (b @ [n]) @ [CHR 0x0A],
       calls := calls w @ [Mkdir (b @ [n])]\<rparr>"
    by (cases w) (simp add: py_print_def)
  show ?thesis by (simp only: step pp)
qed

theorem empty_file_list_witness:
  "simple_name ''buttons'' \<and> fs empty_project project_dir = Some Dir \<and>
   (fs empty_project (project_dir @ [''buttons'']) = None \<or>
    fs empty_project (project_dir @ [''buttons'']) = Some Dir) \<and>
   create_structure project_dir [(''buttons'', PList [])] empty_project =
     (None, empty_project
        \<lparr>fs := (fs empty_project)([''home'', ''dev'', ''gymgee'', ''buttons''] \<mapsto> Dir),
         stdout := ''Created directory: /home/dev/gymgee/buttons'' @ [CHR 0x0A],
         calls := [Mkdir [''home'', ''dev'', ''gymgee'', ''buttons'']]\<rparr>)"
proof -
  have h1: "fs empty_project project_dir = Some Dir"
    by (simp add: empty_project_def project_dir_def)
  have h2: "fs empty_project (project_dir @ [''buttons'']) = None \<or>
            fs empty_project (project_dir @ [''buttons'']) = Some Dir"
    by (simp add: empty_project_def project_dir_def)
  have h0: "simple_name ''buttons''" by (simp add: simple_name_def)
  from empty_file_list [OF h0 h1 h2, of "[]"] h0 h1 h2 show ?thesis
    by (simp add: render_def empty_project_def project_dir_def)
qed

text \<open>
  C7 (scenario). The script run on the description \<^verbatim>\<open>{"a": {"b": ["c.txt"]}}\<close> in an
  empty directory returns normally; afterwards \<^verbatim>\<open>a\<close> and \<^verbatim>\<open>a/b\<close> are directories
  and \<^verbatim>\<open>a/b/c.txt\<close> is a file of size 0, and the output is the three creation lines,
  in this order, then the text of the last \<^verbatim>\<open>print\<close>: an empty line and the completion
  line.
\<close>

theorem scenario_abc:
  "empty_root (fs w) b \<Longrightarrow>
     script [(''a'', PDict [(''b'', PList [''c.txt''])])] b w =
       (None,
        w\<lparr>fs := (fs w)(b @ [''a''] \<mapsto> Dir, b @ [''a'', ''b''] \<mapsto> Dir,
                      b @ [''a'', ''b'', ''c.txt''] \<mapsto> File []),
          stdout := stdout w
            @ ''Created directory: '' @ render (b @ [''a'']) @ [CHR 0x0A]
            @ ''Created directory: '' @ render (b @ [''a'', ''b'']) @ [CHR 0x0A]
            @ ''Created file: '' @ render (b @ [''a'', ''b'', ''c.txt'']) @ [CHR 0x0A]
            @ [CHR 0x0A] @ ''Directory structure created successfully!'' @ [CHR 0x0A],
          calls := calls w @ [Mkdir (b @ [''a'']), Mkdir (b @ [''a'', ''b'']),
                              Touch (b @ [''a'', ''b'', ''c.txt''])]\<rparr>)"
proof -
  assume e: "empty_root (fs w) b"
  then have base: "fs w b = Some Dir" by (simp add: empty_root_def)
  have free: "fs w (b @ n # ns) = None" for n ns
    using e by (simp add: empty_root_def strict_prefix_def prefix_def)
  show ?thesis
    by (cases w)
       (use base free [of "''a''" "[]"] free [of "''a''" "[''b'']"]
            free [of "''a''" "[''b'', ''c.txt'']"]
        in \<open>simp add: script_def Let_def mkdir_def touch_def py_print_def butlast_append\<close>)
qed

theorem scenario_abc_witness:
  "empty_root (fs empty_project) project_dir \<and>
   fst (script [(''a'', PDict [(''b'', PList [''c.txt''])])] project_dir empty_project) = None \<and>
   fs (snd (script [(''a'', PDict [(''b'', PList [''c.txt''])])] project_dir empty_project))
      [''home'', ''dev'', ''gymgee'', ''a'', ''b'', ''c.txt''] = Some (File []) \<and>
   splitlines
     (stdout (snd (script [(''a'', PDict [(''b'', PList [''c.txt''])])]
                     project_dir empty_project))) =
     [''Created directory: /home/dev/gymgee/a'',
      ''Created directory: /home/dev/gymgee/a/b'',
      ''Created file: /home/dev/gymgee/a/b/c.txt'',
      [],
      ''Directory structure created successfully!'']"
  using scenario_abc [OF empty_project_root] empty_project_root
  by (simp add: render_def project_dir_def empty_project_def)

text \<open>
  C1 (completeness), as amended. After a run of \<open>create_structure\<close> that returned, on a
  description whose names are single components and unique within their dictionary:
  the path of every dict-valued and list-valued entry is a directory; the path of every
  \<^verbatim>\<open>None\<close>-valued entry and of every list member holds an empty file if nothing was
  there before the run, and holds what was there before otherwise (a file with its
  content, or a directory).
\<close>

theorem completeness:
  assumes "well_formed d" and "create_structure b d w = (None, w1)"
  shows "(\<forall>p \<in> set (dir_paths b d). fs w1 p = Some Dir) \<and>
         (\<forall>p \<in> set (file_paths b d).
            fs w1 p = (case fs w p of None \<Rightarrow> Some (File []) | Some e \<Rightarrow> Some e))"
proof -
  from assms(2) have run: "exec (preorder b d) w = (None, w1)"
    by (simp add: create_structure_exec)
  have "fs w1 p = Some Dir" if "p \<in> set (dir_paths b d)" for p
  proof -
    from that have "Mkdir p \<in> set (preorder b d)" by (simp add: dir_paths_preorder)
    from exec_done [OF run this] show ?thesis by simp
  qed
  moreover
  have "fs w1 p = (case fs w p of None \<Rightarrow> Some (File []) | Some e \<Rightarrow> Some e)"
    if "p \<in> set (file_paths b d)" for p
  proof (cases "fs w p")
    case None
    from that have t: "Touch p \<in> set (preorder b d)" by (simp add: file_paths_preorder)
    with one_kind [OF assms(1), of p b] have "Mkdir p \<notin> set (preorder b d)" by blast
    from exec_fresh_file [OF run None t this] None show ?thesis by simp
  next
    case (Some e)
    from exec_keeps [OF this, of "preorder b d"] run Some show ?thesis by simp
  qed
  ultimately show ?thesis by blast
qed

theorem completeness_witness:
  "well_formed structure \<and>
   create_structure project_dir structure empty_project =
     (None, snd (create_structure project_dir structure empty_project)) \<and>
   fs (snd (create_structure project_dir structure empty_project))
      [''home'', ''dev'', ''gymgee'', ''lib'', ''core'', ''widgets'', ''buttons''] = Some Dir \<and>
   fs (snd (create_structure project_dir structure empty_project))
      [''home'', ''dev'', ''gymgee'', ''lib'', ''core'', ''constants'', ''app_theme.dart'']
     = Some (File []) \<and>
   fs (snd (create_structure project_dir structure empty_project))
      [''home'', ''dev'', ''gymgee'', ''lib'', ''main.dart''] = Some (File [])"
proof -
  let ?w1 = "snd (create_structure project_dir structure empty_project)"
  from empty_root_succeeds [OF well_formed_structure empty_project_root]
  have run: "create_structure project_dir structure empty_project = (None, ?w1)"
    by (cases "create_structure project_dir structure empty_project") simp
  note c = completeness [OF well_formed_structure run]
  have d: "[''home'', ''dev'', ''gymgee'', ''lib'', ''core'', ''widgets'', ''buttons'']
             \<in> set (dir_paths project_dir structure)"
    by (simp add: structure_def project_dir_def)
  have f1: "[''home'', ''dev'', ''gymgee'', ''lib'', ''core'', ''constants'', ''app_theme.dart'']
             \<in> set (file_paths project_dir structure)"
    by (simp add: structure_def project_dir_def)
  have f2: "[''home'', ''dev'', ''gymgee'', ''lib'', ''main.dart'']
             \<in> set (file_paths project_dir structure)"
    by (simp add: structure_def project_dir_def)
  from c d have "fs ?w1 [''home'', ''dev'', ''gymgee'', ''lib'', ''core'', ''widgets'', ''buttons'']
                   = Some Dir" by blast
  moreover from c f1
  have "fs ?w1 [''home'', ''dev'', ''gymgee'', ''lib'', ''core'', ''constants'', ''app_theme.dart'']
          = Some (File [])"
    by (auto simp: empty_project_def)
  moreover from c f2
  have "fs ?w1 [''home'', ''dev'', ''gymgee'', ''lib'', ''main.dart''] = Some (File [])"
    by (auto simp: empty_project_def)
  ultimately show ?thesis using well_formed_structure run by blast
qed

text \<open>
  C1 as stated fails where a path declared as a file is a directory before the run: the
  run returns normally and the path is a directory afterwards, not an empty file.
\<close>

theorem completeness_counterexample:
  "fst (create_structure project_dir structure occupied_project) = None \<and>
   [''home'', ''dev'', ''gymgee'', ''lib'', ''main.dart'']
     \<in> set (file_paths project_dir structure) \<and>
   fs (snd (create_structure project_dir structure occupied_project))
      [''home'', ''dev'', ''gymgee'', ''lib'', ''main.dart''] = Some Dir"
proof -
  have base: "fs occupied_project project_dir = Some Dir"
    by (simp add: occupied_project_def project_dir_def)
  have nofile: "fs occupied_project p \<noteq> Some (File c)" for p c
    by (simp add: occupied_project_def)
  from walk_succeeds [OF well_formed_structure base nofile]
  have "fst (create_structure project_dir structure occupied_project) = None"
    by (simp add: create_structure_exec)
  moreover have "[''home'', ''dev'', ''gymgee'', ''lib'', ''main.dart'']
                   \<in> set (file_paths project_dir structure)"
    by (simp add: structure_def project_dir_def)
  moreover have "fs occupied_project [''home'', ''dev'', ''gymgee'', ''lib'', ''main.dart'']
                   = Some Dir"
    by (simp add: occupied_project_def)
  then have "fs (snd (create_structure project_dir structure occupied_project))
               [''home'', ''dev'', ''gymgee'', ''lib'', ''main.dart''] = Some Dir"
    by (simp only: create_structure_exec exec_keeps)
  ultimately show ?thesis by blast
qed

text \<open>
  C2 (idempotence). On a description whose names are single components and unique
  within their dictionary, a run in an empty directory returns normally, a second run
  in the directory the first one left returns normally too, and the filesystem after
  the second run is the filesystem after the first: nothing is created, and no file is
  overwritten.
\<close>

theorem idempotence:
  assumes "well_formed d" and "empty_root (fs w) b"
  shows "fst (create_structure b d w) = None \<and>
         fst (create_structure b d (snd (create_structure b d w))) = None \<and>
         fs (snd (create_structure b d (snd (create_structure b d w)))) =
           fs (snd (create_structure b d w))"
proof -
  let ?w1 = "snd (create_structure b d w)"
  from empty_root_succeeds [OF assms] have ok: "fst (create_structure b d w) = None" .
  then have run: "exec (preorder b d) w = (None, ?w1)"
    by (cases "create_structure b d w") (simp add: create_structure_exec)
  have dirs: "fs ?w1 p = Some Dir" if "Mkdir p \<in> set (preorder b d)" for p
    using exec_done [OF run that] by simp
  have files: "fs ?w1 p \<noteq> None" if "Touch p \<in> set (preorder b d)" for p
    using exec_done [OF run that] by simp
  from exec_present [of "preorder b d" ?w1, OF dirs files] ok
  show ?thesis by (simp add: create_structure_exec)
qed

theorem idempotence_witness:
  "well_formed structure \<and> empty_root (fs empty_project) project_dir \<and>
   fst (create_structure project_dir structure empty_project) = None \<and>
   fst (create_structure project_dir structure
          (snd (create_structure project_dir structure empty_project))) = None \<and>
   fs (snd (create_structure project_dir structure
          (snd (create_structure project_dir structure empty_project)))) =
     fs (snd (create_structure project_dir structure empty_project))"
  using idempotence [OF well_formed_structure empty_project_root]
        well_formed_structure empty_project_root
  by blast

text \<open>
  C4 (type collision), as amended. When the walk reaches the \<^verbatim>\<open>mkdir\<close> of a path
  that a file occupies, all earlier calls having returned, \<open>create_structure\<close> raises
  \<^verbatim>\<open>FileExistsError\<close> for that path, and so does the script: no later call is issued,
  nothing more is printed, no completion line included, and the filesystem is the one
  the earlier calls left. (A directory on a path declared as a file raises nothing:
  see C8.)
\<close>

theorem file_blocks_directory:
  assumes "preorder b d = pre @ Mkdir p # post"
    and "exec pre w = (None, v)"
    and "fs v p = Some (File c)"
  shows "create_structure b d w = (Some (FileExistsError p), v\<lparr>calls := calls v @ [Mkdir p]\<rparr>) \<and>
         script d b w = (Some (FileExistsError p), v\<lparr>calls := calls v @ [Mkdir p]\<rparr>)"
proof -
  from assms(3) have "issue (Mkdir p) v = (Some (FileExistsError p), v\<lparr>calls := calls v @ [Mkdir p]\<rparr>)"
    by (simp add: issue_def mkdir_def Let_def)
  with assms(1,2) have "create_structure b d w =
      (Some (FileExistsError p), v\<lparr>calls := calls v @ [Mkdir p]\<rparr>)"
    by (simp add: create_structure_exec exec_append)
  then show ?thesis by (simp add: script_def)
qed

theorem file_blocks_directory_witness:
  "preorder project_dir [(''a'', PNone), (''b'', PDict [(''c'', PNone)]), (''d'', PNone)] =
     [Touch [''home'', ''dev'', ''gymgee'', ''a'']]
     @ Mkdir [''home'', ''dev'', ''gymgee'', ''b'']
     # [Touch [''home'', ''dev'', ''gymgee'', ''b'', ''c''],
        Touch [''home'', ''dev'', ''gymgee'', ''d'']] \<and>
   fs blocked_project [''home'', ''dev'', ''gymgee'', ''b''] = Some (File ''x'') \<and>
   create_structure project_dir
       [(''a'', PNone), (''b'', PDict [(''c'', PNone)]), (''d'', PNone)] blocked_project =
     (Some (FileExistsError [''home'', ''dev'', ''gymgee'', ''b'']),
      blocked_project
        \<lparr>fs := (fs blocked_project)([''home'', ''dev'', ''gymgee'', ''a''] \<mapsto> File []),
         stdout := ''Created file: /home/dev/gymgee/a'' @ [CHR 0x0A],
         calls := [Touch [''home'', ''dev'', ''gymgee'', ''a''],
                   Mkdir [''home'', ''dev'', ''gymgee'', ''b'']]\<rparr>)"
proof -
  let ?v = "blocked_project
        \<lparr>fs := (fs blocked_project)([''home'', ''dev'', ''gymgee'', ''a''] \<mapsto> File []),
         stdout := ''Created file: /home/dev/gymgee/a'' @ [CHR 0x0A],
         calls := [Touch [''home'', ''dev'', ''gymgee'', ''a'']]\<rparr>"
  have h1: "preorder project_dir [(''a'', PNone), (''b'', PDict [(''c'', PNone)]), (''d'', PNone)] =
     [Touch [''home'', ''dev'', ''gymgee'', ''a'']]
     @ Mkdir [''home'', ''dev'', ''gymgee'', ''b'']
     # [Touch [''home'', ''dev'', ''gymgee'', ''b'', ''c''],
        Touch [''home'', ''dev'', ''gymgee'', ''d'']]"
    by (simp add: project_dir_def)
  have h2: "exec [Touch [''home'', ''dev'', ''gymgee'', ''a'']] blocked_project = (None, ?v)"
    by (simp add: issue_def touch_def Let_def notice_def render_def py_print_def
                  blocked_project_def)
  have h3: "fs ?v [''home'', ''dev'', ''gymgee'', ''b''] = Some (File ''x'')"
    by (simp add: blocked_project_def)
  have h4: "fs blocked_project [''home'', ''dev'', ''gymgee'', ''b''] = Some (File ''x'')"
    by (simp add: blocked_project_def)
  from file_blocks_directory [OF h1 h2 h3] h1 h4 show ?thesis
    by (simp add: blocked_project_def)
qed

text \<open>
  C4 as stated fails for a path declared as a file that a directory occupies: the walk
  raises nothing there and goes on to the next entry.
\<close>

theorem collision_counterexample:
  "fs occupied_project [''home'', ''dev'', ''gymgee'', ''lib'', ''main.dart''] = Some Dir \<and>
   create_structure [''home'', ''dev'', ''gymgee'', ''lib'']
       [(''main.dart'', PNone), (''app.dart'', PNone)] occupied_project =
     (None,
      occupied_project
        \<lparr>fs := (fs occupied_project)
                  ([''home'', ''dev'', ''gymgee'', ''lib'', ''app.dart''] \<mapsto> File []),
         stdout := ''Created file: /home/dev/gymgee/lib/main.dart'' @ [CHR 0x0A]
                 @ ''Created file: /home/dev/gymgee/lib/app.dart'' @ [CHR 0x0A],
         calls := [Touch [''home'', ''dev'', ''gymgee'', ''lib'', ''main.dart''],
                   Touch [''home'', ''dev'', ''gymgee'', ''lib'', ''app.dart'']]\<rparr>)"
  by (simp add: touch_def Let_def render_def py_print_def occupied_project_def)

text \<open>
  C5 (traversal order). The calls a run of \<open>create_structure\<close> issues are an initial
  segment of \<open>preorder b d\<close>, the depth-first pre-order enumeration of the description
  with the entries of each dictionary in insertion order, and all of it when the run
  returns normally; the sequence depends on the description and the base path only.
  In it, every call on a path that is not directly in the base directory comes after
  the \<^verbatim>\<open>mkdir\<close> of the directory that holds the path: a directory is made strictly
  before anything is created in it.
\<close>

theorem preorder_walk:
  assumes "well_formed d" and "calls (snd (create_structure b d w)) = calls w @ tr"
  shows "prefix tr (preorder b d) \<and>
         (fst (create_structure b d w) = None \<longrightarrow> tr = preorder b d) \<and>
         (\<forall>pre c post. tr = pre @ c # post \<longrightarrow>
            butlast (target c) = b \<or> Mkdir (butlast (target c)) \<in> set pre)"
proof -
  from exec_calls_prefix [of "preorder b d" w] obtain tr' where all:
    "calls (snd (exec (preorder b d) w)) = calls w @ tr' \<and> prefix tr' (preorder b d) \<and>
     (fst (exec (preorder b d) w) = None \<longrightarrow> tr' = preorder b d) \<and>
     stdout (snd (exec (preorder b d) w)) =
       stdout w @ progress (if fst (exec (preorder b d) w) = None then tr' else butlast tr')" ..
  from all have c: "calls (snd (exec (preorder b d) w)) = calls w @ tr'" by (rule conjunct1)
  from all have p: "prefix tr' (preorder b d)" by (elim conjE)
  from all have s: "fst (exec (preorder b d) w) = None \<longrightarrow> tr' = preorder b d" by (elim conjE)
  from c assms(2) have eq: "tr' = tr" by (simp add: create_structure_exec)
  from p eq have one: "prefix tr (preorder b d)" by simp
  then obtain ys where ys: "preorder b d = tr @ ys" by (rule prefixE)
  have order: "butlast (target c) = b \<or> Mkdir (butlast (target c)) \<in> set pre"
    if "tr = pre @ c # post" for pre c post
  proof -
    from ys that have "preorder b d = pre @ c # (post @ ys)" by simp
    from parents_first_preorder [of b d, unfolded parents_first_def, rule_format, OF this]
    show ?thesis by simp
  qed
  from s eq have two: "fst (create_structure b d w) = None \<longrightarrow> tr = preorder b d"
    by (simp add: create_structure_exec)
  show ?thesis
  proof (intro conjI allI impI)
    show "prefix tr (preorder b d)" by (rule one)
  next
    assume "fst (create_structure b d w) = None"
    with two show "tr = preorder b d" by simp
  next
    fix pre c post
    assume "tr = pre @ c # post"
    then show "butlast (target c) = b \<or> Mkdir (butlast (target c)) \<in> set pre"
      by (rule order)
  qed
qed

theorem preorder_walk_witness:
  "well_formed [(''a'', PDict [(''b'', PList [''c.txt''])]), (''z'', PNone)] \<and>
   calls (snd (create_structure project_dir
                 [(''a'', PDict [(''b'', PList [''c.txt''])]), (''z'', PNone)] empty_project)) =
     calls empty_project @
       [Mkdir [''home'', ''dev'', ''gymgee'', ''a''],
        Mkdir [''home'', ''dev'', ''gymgee'', ''a'', ''b''],
        Touch [''home'', ''dev'', ''gymgee'', ''a'', ''b'', ''c.txt''],
        Touch [''home'', ''dev'', ''gymgee'', ''z'']] \<and>
   preorder project_dir [(''a'', PDict [(''b'', PList [''c.txt''])]), (''z'', PNone)] =
       [Mkdir [''home'', ''dev'', ''gymgee'', ''a''],
        Mkdir [''home'', ''dev'', ''gymgee'', ''a'', ''b''],
        Touch [''home'', ''dev'', ''gymgee'', ''a'', ''b'', ''c.txt''],
        Touch [''home'', ''dev'', ''gymgee'', ''z'']] \<and>
   Mkdir (butlast (target (Touch [''home'', ''dev'', ''gymgee'', ''a'', ''b'', ''c.txt''])))
     \<in> set [Mkdir [''home'', ''dev'', ''gymgee'', ''a''],
             Mkdir [''home'', ''dev'', ''gymgee'', ''a'', ''b'']]"
proof -
  let ?d = "[(''a'', PDict [(''b'', PList [''c.txt''])]), (''z'', PNone)]"
  let ?tr = "[Mkdir [''home'', ''dev'', ''gymgee'', ''a''],
        Mkdir [''home'', ''dev'', ''gymgee'', ''a'', ''b''],
        Touch [''home'', ''dev'', ''gymgee'', ''a'', ''b'', ''c.txt''],
        Touch [''home'', ''dev'', ''gymgee'', ''z'']]"
  have h1: "well_formed ?d" by (simp add: simple_name_def)
  have h2: "calls (snd (create_structure project_dir ?d empty_project)) =
              calls empty_project @ ?tr"
    by (simp add: Let_def mkdir_def touch_def py_print_def project_dir_def empty_project_def)
  have ok: "fst (create_structure project_dir ?d empty_project) = None"
    by (simp add: Let_def mkdir_def touch_def py_print_def project_dir_def empty_project_def)
  note pw = preorder_walk [OF h1 h2]
  from pw ok have full: "?tr = preorder project_dir ?d" by blast
  from pw have
    "?tr = [Mkdir [''home'', ''dev'', ''gymgee'', ''a''],
            Mkdir [''home'', ''dev'', ''gymgee'', ''a'', ''b'']]
           @ Touch [''home'', ''dev'', ''gymgee'', ''a'', ''b'', ''c.txt'']
           # [Touch [''home'', ''dev'', ''gymgee'', ''z'']] \<longrightarrow>
     butlast (target (Touch [''home'', ''dev'', ''gymgee'', ''a'', ''b'', ''c.txt''])) = project_dir \<or>
     Mkdir (butlast (target (Touch [''home'', ''dev'', ''gymgee'', ''a'', ''b'', ''c.txt''])))
       \<in> set [Mkdir [''home'', ''dev'', ''gymgee'', ''a''],
               Mkdir [''home'', ''dev'', ''gymgee'', ''a'', ''b'']]"
    by blast
  then have before:
    "Mkdir (butlast (target (Touch [''home'', ''dev'', ''gymgee'', ''a'', ''b'', ''c.txt''])))
       \<in> set [Mkdir [''home'', ''dev'', ''gymgee'', ''a''],
               Mkdir [''home'', ''dev'', ''gymgee'', ''a'', ''b'']]"
    by (simp add: project_dir_def)
  from h1 h2 full [symmetric] before show ?thesis by blast
qed

text \<open>
  C6 (output), as amended. For a description whose names are single components, what
  the script writes to standard output is one line for
  each \<^verbatim>\<open>mkdir\<close> or \<^verbatim>\<open>touch\<close> call that returned, in the order of the calls and
  whether the call created its entry or found it there, of the form
  \<^verbatim>\<open>Created directory: <path>\<close> or \<^verbatim>\<open>Created file: <path>\<close>; when the walk returns
  normally these are the lines of all the calls of the walk, followed by an empty line
  and the completion line; when it raises, they are the lines of the calls issued
  before the one that raised, and nothing follows them.
\<close>

theorem output_format:
  "well_formed d \<Longrightarrow>
   stdout (snd (script d b w)) =
     stdout w @
     (case fst (script d b w) of
        None \<Rightarrow> progress (preorder b d) @ [CHR 0x0A]
                 @ ''Directory structure created successfully!'' @ [CHR 0x0A]
      | Some e \<Rightarrow> progress (butlast (drop (length (calls w)) (calls (snd (script d b w))))))"
  by (rule script_stdout)

theorem output_format_witness:
  "stdout (snd (main project_dir empty_project)) =
     progress (preorder project_dir structure) @ [CHR 0x0A]
       @ ''Directory structure created successfully!'' @ [CHR 0x0A] \<and>
   stdout (snd (script [(''a'', PNone), (''b'', PDict [(''c'', PNone)]), (''d'', PNone)]
                  project_dir blocked_project)) =
     ''Created file: /home/dev/gymgee/a'' @ [CHR 0x0A]"
proof -
  let ?d = "[(''a'', PNone), (''b'', PDict [(''c'', PNone)]), (''d'', PNone)]"
  have ok: "fst (script structure project_dir empty_project) = None"
    using empty_root_succeeds [OF well_formed_structure empty_project_root]
    by (simp add: script_fst)
  have out0: "stdout empty_project = []" by (simp add: empty_project_def)
  from output_format [OF well_formed_structure, of project_dir empty_project] ok out0
  have one: "stdout (snd (main project_dir empty_project)) =
     progress (preorder project_dir structure) @ [CHR 0x0A]
       @ ''Directory structure created successfully!'' @ [CHR 0x0A]"
    by (simp add: main_def)
  have bad: "fst (script ?d project_dir blocked_project) =
               Some (FileExistsError [''home'', ''dev'', ''gymgee'', ''b''])"
    by (simp add: script_fst Let_def touch_def mkdir_def py_print_def
                  project_dir_def blocked_project_def)
  have cs: "calls (snd (script ?d project_dir blocked_project)) =
              [Touch [''home'', ''dev'', ''gymgee'', ''a''],
               Mkdir [''home'', ''dev'', ''gymgee'', ''b'']]"
    by (simp add: script_calls Let_def touch_def mkdir_def py_print_def
                  project_dir_def blocked_project_def)
  have b0: "stdout blocked_project = []" "calls blocked_project = []"
    by (simp_all add: blocked_project_def)
  have wf: "well_formed ?d" by (simp add: simple_name_def)
  from output_format [OF wf, of project_dir blocked_project] bad cs b0
  have two: "stdout (snd (script ?d project_dir blocked_project)) =
     ''Created file: /home/dev/gymgee/a'' @ [CHR 0x0A]"
    by (simp add: progress_def notice_def render_def)
  from one two show ?thesis by (rule conjI)
qed

text \<open>
  C6 as stated fails twice. In an empty directory the completion line does not follow
  the progress lines directly: an empty line stands between them. And run again in the
  directory the first run left, the script creates nothing and prints every progress
  line again.
\<close>

theorem output_counterexample:
  "fst (main project_dir empty_project) = None \<and>
   stdout (snd (main project_dir empty_project)) \<noteq>
     progress (preorder project_dir structure)
       @ ''Directory structure created successfully!'' @ [CHR 0x0A] \<and>
   fst (main project_dir (snd (main project_dir empty_project))) = None \<and>
   fs (snd (main project_dir (snd (main project_dir empty_project)))) =
     fs (snd (main project_dir empty_project)) \<and>
   stdout (snd (main project_dir (snd (main project_dir empty_project)))) =
     stdout (snd (main project_dir empty_project))
       @ progress (preorder project_dir structure) @ [CHR 0x0A]
       @ ''Directory structure created successfully!'' @ [CHR 0x0A]"
proof -
  let ?w1 = "snd (create_structure project_dir structure empty_project)"
  let ?m1 = "snd (main project_dir empty_project)"
  have ok: "fst (create_structure project_dir structure empty_project) = None"
    by (rule empty_root_succeeds [OF well_formed_structure empty_project_root])
  then have ok1: "fst (main project_dir empty_project) = None"
    by (simp add: main_def script_fst)
  from ok have run1: "exec (preorder project_dir structure) empty_project = (None, ?w1)"
    by (cases "create_structure project_dir structure empty_project")
       (simp add: create_structure_exec)
  have out0: "stdout empty_project = []" by (simp add: empty_project_def)
  from script_stdout [of "structure" project_dir empty_project] ok1 out0
  have out1: "stdout ?m1 = progress (preorder project_dir structure) @ [CHR 0x0A]
       @ ''Directory structure created successfully!'' @ [CHR 0x0A]"
    by (simp add: main_def)
  then have ne: "stdout ?m1 \<noteq> progress (preorder project_dir structure)
       @ ''Directory structure created successfully!'' @ [CHR 0x0A]"
    by simp
  have m1: "?m1 = py_print (CHR 0x0A # ''Directory structure created successfully!'') ?w1"
    using ok by (cases "create_structure project_dir structure empty_project")
                (simp add: main_def script_def)
  have again: "fst (exec (preorder project_dir structure) ?m1) = None \<and>
               fs (snd (exec (preorder project_dir structure) ?m1)) = fs ?m1"
  proof -
    have dirs: "fs ?m1 p = Some Dir" if "Mkdir p \<in> set (preorder project_dir structure)" for p
      using exec_done [OF run1 that] by (simp add: m1)
    have files: "fs ?m1 p \<noteq> None" if "Touch p \<in> set (preorder project_dir structure)" for p
      using exec_done [OF run1 that] by (simp add: m1)
    from exec_present [of "preorder project_dir structure" ?m1, OF dirs files]
    show ?thesis .
  qed
  then have ok2: "fst (main project_dir ?m1) = None"
    by (simp add: main_def script_fst create_structure_exec)
  from again have same: "fs (snd (main project_dir ?m1)) = fs ?m1"
    by (simp add: main_def script_fs create_structure_exec)
  from script_stdout [of "structure" project_dir ?m1] ok2
  have out2: "stdout (snd (main project_dir ?m1)) =
     stdout ?m1 @ progress (preorder project_dir structure) @ [CHR 0x0A]
       @ ''Directory structure created successfully!'' @ [CHR 0x0A]"
    by (simp add: main_def)
  from ok1 ne ok2 same out2 show ?thesis by (intro conjI)
qed

end
